theory Spec2Isabelle
  imports Main "HOL-Library.AList" "HOL-Library.Sublist" "HOL-Library.Monad_Syntax"
begin

section \<open>Issues as the tracker client hands them over\<close>

text \<open>
  The script reads a handful of attributes of the client library's issue objects.
  An attribute that the script guards with \<^verbatim>\<open>hasattr\<close> is an optional field; the
  others are plain fields. Names of statuses, priorities, severities, components and
  link types are strings, and so are issue keys.
\<close>

datatype error = IndexError

record link =
  type_name :: string  \<comment> \<open>\<^verbatim>\<open>link.type.name\<close>\<close>
  outwardIssue :: "string option"  \<comment> \<open>\<^verbatim>\<open>link.outwardIssue.key\<close>, when the attribute exists\<close>
  inwardIssue :: "string option"  \<comment> \<open>\<^verbatim>\<open>link.inwardIssue.key\<close>, when the attribute exists\<close>

record issue =
  key :: string
  status_name :: string  \<comment> \<open>\<^verbatim>\<open>issue.fields.status.name\<close>\<close>
  fields_components :: "string list option"  \<comment> \<open>names in \<^verbatim>\<open>issue.fields.components\<close>\<close>
  priority_name :: string  \<comment> \<open>\<^verbatim>\<open>issue.fields.priority.name\<close>\<close>
  severity_name :: "string option"  \<comment> \<open>\<^verbatim>\<open>issue.fields.severity.name\<close>\<close>
  issuelinks :: "link list"  \<comment> \<open>\<^verbatim>\<open>issue.fields.issuelinks\<close>\<close>

section \<open>The relevance filter\<close>

definition resolved :: "issue \<Rightarrow> bool" where
  "resolved issue \<longleftrightarrow>
     status_name issue \<in> set [''Done'', ''Resolved'', ''Fertig'', ''Closed'']"

definition components :: "issue \<Rightarrow> string list" where
  "components issue =
     (case fields_components issue of
        Some cs \<Rightarrow> cs
      | None \<Rightarrow> [])"

text \<open>
  The component argument is a string or \<^verbatim>\<open>None\<close>. Python's \<^verbatim>\<open>in\<close> compares it with
  every component name, all of them strings, so \<^verbatim>\<open>None\<close> equals none of them.
\<close>

definition relevant :: "issue \<Rightarrow> string option \<Rightarrow> bool" where
  "relevant issue component =
     (if resolved issue then False
      else if component \<in> set (map Some (components issue)) then False
      else (priority_name issue \<in> set [''High'', ''Highest''] \<or>
            (case severity_name issue of
               None \<Rightarrow> False
             | Some s \<Rightarrow> s \<in> set [''Major''])))"

section \<open>Looking an issue up by its key\<close>

text \<open>
  \<^verbatim>\<open>filter(...)[0]\<close>: the first issue with the key, and an \<^verbatim>\<open>IndexError\<close> when the
  filtered list is empty.
\<close>

definition get_issue :: "string \<Rightarrow> issue list \<Rightarrow> error + issue" where
  "get_issue k issues =
     (case filter (\<lambda>issue. key issue = k) issues of
        [] \<Rightarrow> Inl IndexError
      | found # _ \<Rightarrow> Inr found)"

section \<open>The blocker linker\<close>

record blocking_info =
  blocks :: "string list"
  is_blocked_by :: "string list"

text \<open>
  The dictionary \<^verbatim>\<open>blocked\<close> is an association list with one entry per key; an
  assignment to a key that is present replaces its value. Python leaves the order in
  which such a dictionary is traversed open. The list keeps the order of the first
  assignments; the renderer is defined on every list of items, and what is proved of it
  holds for every such list, so for every order.

  The test \<^verbatim>\<open>outward_issue in check_issues\<close> compares issue objects with the equality
  of the client library, which the script does not define: it is the parameter
  \<open>issue_eq\<close>.

  The body of the loop over the links works on the pair of the two lists
  \<^verbatim>\<open>outward_issues\<close> and \<^verbatim>\<open>inward_issues\<close>. The \<^verbatim>\<open>continue\<close> of the outward branch
  leaves the body, so the inward branch is not reached then.
\<close>

definition inward_branch ::
  "issue list \<Rightarrow> link \<Rightarrow> string list \<times> string list \<Rightarrow> error + string list \<times> string list"
where
  "inward_branch all_issues link acc =
     (case acc of (outward_issues, inward_issues) \<Rightarrow>
        (case inwardIssue link of
           None \<Rightarrow> Inr (outward_issues, inward_issues)
         | Some ki \<Rightarrow>
             (case get_issue ki all_issues of
                Inl e \<Rightarrow> Inl e
              | Inr inward_issue \<Rightarrow>
                  if relevant inward_issue None
                  then Inr (outward_issues, inward_issues @ [key inward_issue])
                  else Inr (outward_issues, inward_issues))))"

definition link_body ::
  "(issue \<Rightarrow> issue \<Rightarrow> bool) \<Rightarrow> issue list \<Rightarrow> issue list \<Rightarrow> string option \<Rightarrow>
   string list \<times> string list \<Rightarrow> link \<Rightarrow> error + string list \<times> string list"
where
  "link_body issue_eq check_issues all_issues component acc link =
     (case acc of (outward_issues, inward_issues) \<Rightarrow>
        if type_name link = ''Blocks'' then
          (case outwardIssue link of
             None \<Rightarrow> inward_branch all_issues link (outward_issues, inward_issues)
           | Some ko \<Rightarrow>
               (case get_issue ko all_issues of
                  Inl e \<Rightarrow> Inl e
                | Inr outward_issue \<Rightarrow>
                    if list_ex (issue_eq outward_issue) check_issues
                    then Inr (outward_issues, inward_issues)
                    else if relevant outward_issue component
                    then inward_branch all_issues link
                           (outward_issues @ [key outward_issue], inward_issues)
                    else inward_branch all_issues link (outward_issues, inward_issues)))
        else Inr (outward_issues, inward_issues))"

fun links_loop ::
  "(issue \<Rightarrow> issue \<Rightarrow> bool) \<Rightarrow> issue list \<Rightarrow> issue list \<Rightarrow> string option \<Rightarrow>
   string list \<times> string list \<Rightarrow> link list \<Rightarrow> error + string list \<times> string list"
where
  "links_loop issue_eq check_issues all_issues component acc [] = Inr acc"
| "links_loop issue_eq check_issues all_issues component acc (link # links) =
     (case link_body issue_eq check_issues all_issues component acc link of
        Inl e \<Rightarrow> Inl e
      | Inr acc' \<Rightarrow> links_loop issue_eq check_issues all_issues component acc' links)"

fun issues_loop ::
  "(issue \<Rightarrow> issue \<Rightarrow> bool) \<Rightarrow> issue list \<Rightarrow> issue list \<Rightarrow> string option \<Rightarrow>
   (string \<times> blocking_info) list \<Rightarrow> issue list \<Rightarrow> error + (string \<times> blocking_info) list"
where
  "issues_loop issue_eq check_issues all_issues component blocked [] = Inr blocked"
| "issues_loop issue_eq check_issues all_issues component blocked (issue # rest) =
     (if resolved issue
      then issues_loop issue_eq check_issues all_issues component blocked rest
      else
        (case links_loop issue_eq check_issues all_issues component ([], [])
                (issuelinks issue) of
           Inl e \<Rightarrow> Inl e
         | Inr (outward_issues, inward_issues) \<Rightarrow>
             if outward_issues \<noteq> []
             then issues_loop issue_eq check_issues all_issues component
                    (AList.update (key issue)
                       \<lparr>blocks = outward_issues, is_blocked_by = inward_issues\<rparr> blocked)
                    rest
             else issues_loop issue_eq check_issues all_issues component blocked rest))"

definition get_blocked ::
  "(issue \<Rightarrow> issue \<Rightarrow> bool) \<Rightarrow> issue list \<Rightarrow> issue list \<Rightarrow> string option \<Rightarrow>
   error + (string \<times> blocking_info) list"
where
  "get_blocked issue_eq check_issues all_issues component =
     issues_loop issue_eq check_issues all_issues component [] check_issues"

section \<open>Standard output and the graph renderer\<close>

text \<open>
  What the process has done to the outside so far: the texts of the \<^verbatim>\<open>print\<close> calls,
  each without the newline that \<^verbatim>\<open>print\<close> adds, and the searches sent to the tracker
  as (query, start, maximum).
\<close>

record world =
  stdout :: "string list"
  requests :: "(string \<times> nat \<times> nat) list"

definition print :: "string \<Rightarrow> world \<Rightarrow> world" where
  "print s w = w\<lparr>stdout := stdout w @ [s]\<rparr>"

abbreviation (input) dquote :: char where
  "dquote \<equiv> CHR 0x22"

abbreviation (input) newline :: char where
  "newline \<equiv> CHR 0x0A"

definition node :: "string \<Rightarrow> bool \<Rightarrow> string" where
  "node issue special =
     [dquote] @ issue @ [dquote] @ '' '' @
     (if special then ''[ shape = triangle ]'' else [])"

definition header :: string where
  "header =
     ''digraph blockers {'' @ [newline] @
     ''             layout=neato;'' @ [newline] @
     ''             overlap=false;'' @ [newline] @
     ''             sep='' @ [dquote] @ ''+1'' @ [dquote] @ '';''"

fun output_blocks :: "string \<Rightarrow> string list \<Rightarrow> world \<Rightarrow> world" where
  "output_blocks issue [] w = w"
| "output_blocks issue (out_issue # rest) w =
     output_blocks issue rest
       (print (node issue False @ '' -> '' @ node out_issue False @ '';'')
          (print (node out_issue False) w))"

definition output_item :: "string \<times> blocking_info \<Rightarrow> world \<Rightarrow> world" where
  "output_item item w =
     (case item of (issue, blocked_info) \<Rightarrow>
        (let special = (is_blocked_by blocked_info = [])
         in output_blocks issue (blocks blocked_info)
              (if special then print (node issue special) w else w)))"

fun output_items :: "(string \<times> blocking_info) list \<Rightarrow> world \<Rightarrow> world" where
  "output_items [] w = w"
| "output_items (item # items) w = output_items items (output_item item w)"

definition output_digraph :: "(string \<times> blocking_info) list \<Rightarrow> world \<Rightarrow> world" where
  "output_digraph blocked w = print ''}'' (output_items blocked (print header w))"

section \<open>The issue fetcher\<close>

text \<open>
  The wrapper class calls two methods of the client library: the search, which answers
  a query with the issues from a start index on, up to a maximum, and the retrieval of
  one issue. Both are fields of the client here. Failures of the network are left out.
\<close>

record jira =
  search_issues :: "string \<Rightarrow> nat \<Rightarrow> nat \<Rightarrow> issue list"  \<comment> \<open>\<^verbatim>\<open>self.search_issues\<close>\<close>
  jira_issue :: "issue \<Rightarrow> issue"  \<comment> \<open>\<^verbatim>\<open>self.issue\<close>\<close>

definition MAX_ISSUES :: nat where
  "MAX_ISSUES = 1000"

text \<open>The decimal digits of a number, as \<^verbatim>\<open>format\<close> writes an integer.\<close>

fun str_nat :: "nat \<Rightarrow> string" where
  "str_nat n =
     (if n < 10 then [''0123456789'' ! n]
      else str_nat (n div 10) @ [''0123456789'' ! (n mod 10)])"

declare str_nat.simps [simp del]

definition issues_chunk ::
  "jira \<Rightarrow> string \<Rightarrow> nat \<Rightarrow> nat \<Rightarrow> world \<Rightarrow> issue list \<times> world"
where
  "issues_chunk self query start_at max_results w =
     (map (jira_issue self) (search_issues self query start_at max_results),
      w\<lparr>requests := requests w @ [(query, start_at, max_results)]\<rparr>)"

text \<open>
  The loop \<^verbatim>\<open>while True\<close> of \<^verbatim>\<open>component_issues\<close>, with the statements that follow
  its first \<^verbatim>\<open>break\<close> kept in place. A loop of this form need not end, so its result
  is optional: \<open>None\<close> stands for a loop that runs forever.
\<close>

partial_function (option) component_issues_loop ::
  "jira \<Rightarrow> string \<Rightarrow> nat \<Rightarrow> nat \<Rightarrow> issue list \<Rightarrow> world \<Rightarrow> (issue list \<times> world) option"
where
  "component_issues_loop self query inc counter issues w =
     (case issues_chunk self query counter inc w of (new_issues, w') \<Rightarrow>
        (let issues' = issues @ new_issues
         in if True then Some (issues', w')
            else if length new_issues < inc then Some (issues', w')
            else component_issues_loop self query inc (counter + inc) issues' w'))"

text \<open>
  The query that \<^verbatim>\<open>component_issues\<close> builds from its two arguments before the loop:
  \<^verbatim>\<open>format\<close> puts the project, and the component when there is one, into the text as
  they are.
\<close>

definition component_query :: "string \<Rightarrow> string option \<Rightarrow> string" where
  "component_query project component =
     (let query = ''project='' @ project
      in case component of
           None \<Rightarrow> query
         | Some c \<Rightarrow> query @ '' AND component='' @ c)"

definition component_issues ::
  "jira \<Rightarrow> string \<Rightarrow> string option \<Rightarrow> world \<Rightarrow> (issue list \<times> world) option"
where
  "component_issues self project component w = do {
     let issues = [];
     let counter = 0;
     let inc = MAX_ISSUES;
     let query = component_query project component;
     let w = print (''# JQL: '' @ query) w;
     (issues, w) \<leftarrow> component_issues_loop self query inc counter issues w;
     let w = print (''# Found '' @ str_nat (length issues) @ '' matching issues.'') w;
     Some (issues, w)
   }"

section \<open>The main method and the command line\<close>

datatype outcome = Returned | SystemExit nat | Raised error

definition run ::
  "jira \<Rightarrow> (issue \<Rightarrow> issue \<Rightarrow> bool) \<Rightarrow> string \<Rightarrow> string option \<Rightarrow> world \<Rightarrow>
   (outcome \<times> world) option"
where
  "run self issue_eq project component w = do {
     (project_issues, w) \<leftarrow> component_issues self project None w;
     (tfapd_issues, w) \<leftarrow> component_issues self ''TFAPD'' None w;
     let all_issues = project_issues @ tfapd_issues;
     (issues_to_check, w) \<leftarrow> component_issues self project component w;
     let w = print (''# '' @ str_nat (length issues_to_check) @ '' in '' @
                   (case component of None \<Rightarrow> ''None'' | Some c \<Rightarrow> c)) w;
     (case get_blocked issue_eq issues_to_check all_issues component of
        Inl e \<Rightarrow> Some (Raised e, w)
      | Inr blocked \<Rightarrow> Some (Returned, output_digraph blocked w))
   }"

definition usage :: "string list \<Rightarrow> world \<Rightarrow> outcome \<times> world" where
  "usage argv w =
     (case argv of
        [] \<Rightarrow> (Raised IndexError, w)
      | prog # _ \<Rightarrow>
          (SystemExit 42, print (prog @ '' <user> <server> <project> <component>'') w))"

text \<open>
  The script's top level. The constructor of the wrapper class is the parameter
  \<open>connect\<close> (user, password, server), and \<open>getpass\<close> is the password that was typed.
\<close>

definition main ::
  "(string \<Rightarrow> string \<Rightarrow> string \<Rightarrow> jira) \<Rightarrow> string \<Rightarrow> (issue \<Rightarrow> issue \<Rightarrow> bool) \<Rightarrow>
   string list \<Rightarrow> world \<Rightarrow> (outcome \<times> world) option"
where
  "main connect getpass issue_eq argv w =
     (if length argv < 4 then Some (usage argv w)
      else
        (let USER = argv ! 1;
             SERVER = argv ! 2;
             PROJECT = argv ! 3;
             COMPONENT = (if length argv = 5
                          then Some ([dquote] @ argv ! 4 @ [dquote])
                          else None);
             PASSWORD = getpass;
             JIRA = connect USER PASSWORD SERVER
         in run JIRA issue_eq PROJECT COMPONENT w))"

section \<open>Sample data\<close>

text \<open>
  Concrete issues on which the theorems below are exercised: \<open>A-1\<close> of component
  \<open>X\<close> blocks \<open>B-2\<close> of component \<open>Y\<close> and \<open>D-4\<close> of component \<open>X\<close>, and is
  blocked by \<open>C-3\<close> of component \<open>X\<close>. The sample tracker answers a search with a
  page of a fixed result list and hands every issue back as it is.
\<close>

definition sample_issue :: "string \<Rightarrow> string \<Rightarrow> string \<Rightarrow> link list \<Rightarrow> issue" where
  "sample_issue k cname priority links =
     \<lparr>key = k, status_name = ''Open'', fields_components = Some [cname],
      priority_name = priority, severity_name = None, issuelinks = links\<rparr>"

definition blocks_link :: "string option \<Rightarrow> string option \<Rightarrow> link" where
  "blocks_link outward inward =
     \<lparr>type_name = ''Blocks'', outwardIssue = outward, inwardIssue = inward\<rparr>"

definition issue_A :: issue where
  "issue_A = sample_issue ''A-1'' ''X'' ''Medium''
     [blocks_link (Some ''B-2'') None, blocks_link (Some ''D-4'') None,
      blocks_link None (Some ''C-3'')]"

definition issue_B :: issue where
  "issue_B = sample_issue ''B-2'' ''Y'' ''High'' []"

definition issue_C :: issue where
  "issue_C = sample_issue ''C-3'' ''X'' ''High'' []"

definition issue_D :: issue where
  "issue_D = sample_issue ''D-4'' ''X'' ''Highest'' []"

definition sample_jira :: "(string \<Rightarrow> issue list) \<Rightarrow> jira" where
  "sample_jira results =
     \<lparr>search_issues = (\<lambda>query start_at max_results.
        take max_results (drop start_at (results query))),
      jira_issue = (\<lambda>issue. issue)\<rparr>"

definition sample_results :: "string \<Rightarrow> issue list" where
  "sample_results query =
     (if query = ''project=P'' then [issue_A]
      else if query = ''project=TFAPD'' then [issue_B, issue_C, issue_D]
      else if query = ''project=P AND component=X'' then [issue_A]
      else if query = ''project=P AND component='' @ [dquote] @ ''X'' @ [dquote]
      then [issue_A]
      else [])"

definition empty_world :: world where
  "empty_world = \<lparr>stdout = [], requests = []\<rparr>"

section \<open>Properties of the relevance filter\<close>

lemma resolved_iff:
  "resolved issue \<longleftrightarrow>
     status_name issue \<in> {''Done'', ''Resolved'', ''Fertig'', ''Closed''}"
  by (simp add: resolved_def)

lemma in_component_iff:
  "component \<in> set (map Some (components issue)) \<longleftrightarrow>
     (\<exists>c. component = Some c \<and> c \<in> set (components issue))"
  by auto

text \<open>
  C2. An issue whose status name is Done, Resolved, Fertig or Closed is never relevant,
  whatever the component argument, the priority and the severity are.
\<close>

theorem relevant_resolved_status:
  "status_name issue \<in> {''Done'', ''Resolved'', ''Fertig'', ''Closed''} \<Longrightarrow>
     relevant issue component = False"
  by (simp add: relevant_def resolved_iff)

theorem relevant_resolved_status_witness:
  "status_name \<lparr>key = ''A-1'', status_name = ''Fertig'', fields_components = None,
       priority_name = ''Highest'', severity_name = Some ''Major'', issuelinks = []\<rparr>
     \<in> {''Done'', ''Resolved'', ''Fertig'', ''Closed''} \<and>
   relevant \<lparr>key = ''A-1'', status_name = ''Fertig'', fields_components = None,
       priority_name = ''Highest'', severity_name = Some ''Major'', issuelinks = []\<rparr>
     (Some ''X'') = False"
  using relevant_resolved_status
    [of "\<lparr>key = ''A-1'', status_name = ''Fertig'', fields_components = None,
       priority_name = ''Highest'', severity_name = Some ''Major'', issuelinks = []\<rparr>"
      "Some ''X''"]
  by simp

text \<open>
  C3. For an unresolved issue that does not belong to the target component, the filter
  answers true exactly when the priority name is High or Highest, or the issue has a
  severity field and its name is Major.
\<close>

theorem relevant_iff_priority_or_severity:
  assumes "\<not> resolved issue"
    and "\<not> (\<exists>c. component = Some c \<and> c \<in> set (components issue))"
  shows "relevant issue component \<longleftrightarrow>
     priority_name issue = ''High'' \<or> priority_name issue = ''Highest'' \<or>
     severity_name issue = Some ''Major''"
  using assms
  by (auto simp: relevant_def in_component_iff split: option.splits)

theorem relevant_iff_priority_or_severity_witness:
  "\<not> resolved \<lparr>key = ''B-2'', status_name = ''Open'', fields_components = Some [''Y''],
       priority_name = ''Low'', severity_name = Some ''Major'', issuelinks = []\<rparr> \<and>
   \<not> (\<exists>c. Some ''X'' = Some c \<and> c \<in> set (components
       \<lparr>key = ''B-2'', status_name = ''Open'', fields_components = Some [''Y''],
        priority_name = ''Low'', severity_name = Some ''Major'', issuelinks = []\<rparr>)) \<and>
   relevant \<lparr>key = ''B-2'', status_name = ''Open'', fields_components = Some [''Y''],
       priority_name = ''Low'', severity_name = Some ''Major'', issuelinks = []\<rparr> (Some ''X'')"
  using relevant_iff_priority_or_severity
    [of "\<lparr>key = ''B-2'', status_name = ''Open'', fields_components = Some [''Y''],
       priority_name = ''Low'', severity_name = Some ''Major'', issuelinks = []\<rparr>"
      "Some ''X''"]
  by (simp add: resolved_iff components_def)

text \<open>
  C4. An issue is never relevant for a component name, other than \<^verbatim>\<open>None\<close>, that is
  among the names of the issue's own components.
\<close>

theorem relevant_own_component:
  "c \<in> set (components issue) \<Longrightarrow> relevant issue (Some c) = False"
  by (simp add: relevant_def in_component_iff)

theorem relevant_own_component_witness:
  "''X'' \<in> set (components \<lparr>key = ''C-3'', status_name = ''Open'',
       fields_components = Some [''W'', ''X''], priority_name = ''High'',
       severity_name = None, issuelinks = []\<rparr>) \<and>
   relevant \<lparr>key = ''C-3'', status_name = ''Open'',
       fields_components = Some [''W'', ''X''], priority_name = ''High'',
       severity_name = None, issuelinks = []\<rparr> (Some ''X'') = False"
  using relevant_own_component
    [of "''X''" "\<lparr>key = ''C-3'', status_name = ''Open'',
       fields_components = Some [''W'', ''X''], priority_name = ''High'',
       severity_name = None, issuelinks = []\<rparr>"]
  by (simp add: components_def)

section \<open>Properties of the lookup and of the blocker linker\<close>

lemma get_issue_Nil: "get_issue k [] = Inl IndexError"
  by (simp add: get_issue_def)

lemma get_issue_Cons:
  "get_issue k (x # xs) = (if key x = k then Inr x else get_issue k xs)"
  by (simp add: get_issue_def)

lemma get_issue_Inr_iff:
  "get_issue k issues = Inr i \<longleftrightarrow>
     (\<exists>pre post. issues = pre @ i # post \<and> key i = k \<and> (\<forall>j \<in> set pre. key j \<noteq> k))"
proof (induction issues)
  case Nil
  show ?case by (simp add: get_issue_Nil)
next
  case (Cons x xs)
  show ?case
  proof (cases "key x = k")
    case True
    have "(\<exists>pre post. x # xs = pre @ i # post \<and> key i = k \<and> (\<forall>j \<in> set pre. key j \<noteq> k))
            \<longleftrightarrow> x = i"
    proof
      assume "\<exists>pre post. x # xs = pre @ i # post \<and> key i = k \<and> (\<forall>j \<in> set pre. key j \<noteq> k)"
      then obtain pre post where
        eq: "x # xs = pre @ i # post" and no: "\<forall>j \<in> set pre. key j \<noteq> k"
        by blast
      show "x = i"
      proof (cases pre)
        case Nil
        with eq show ?thesis by simp
      next
        case (Cons p ps)
        with eq have "p = x" by simp
        with Cons no True show ?thesis by simp
      qed
    next
      assume "x = i"
      with True have "x # xs = [] @ i # xs \<and> key i = k \<and> (\<forall>j \<in> set []. key j \<noteq> k)"
        by simp
      then show "\<exists>pre post. x # xs = pre @ i # post \<and> key i = k \<and> (\<forall>j \<in> set pre. key j \<noteq> k)"
        by blast
    qed
    with True show ?thesis by (simp add: get_issue_Cons)
  next
    case False
    have "(\<exists>pre post. x # xs = pre @ i # post \<and> key i = k \<and> (\<forall>j \<in> set pre. key j \<noteq> k))
            \<longleftrightarrow> (\<exists>pre post. xs = pre @ i # post \<and> key i = k \<and> (\<forall>j \<in> set pre. key j \<noteq> k))"
    proof
      assume "\<exists>pre post. x # xs = pre @ i # post \<and> key i = k \<and> (\<forall>j \<in> set pre. key j \<noteq> k)"
      then obtain pre post where
        eq: "x # xs = pre @ i # post" and ki: "key i = k" and no: "\<forall>j \<in> set pre. key j \<noteq> k"
        by blast
      from eq ki False obtain ps where pre: "pre = x # ps"
        by (cases pre) auto
      with eq no ki have "xs = ps @ i # post \<and> key i = k \<and> (\<forall>j \<in> set ps. key j \<noteq> k)"
        by simp
      then show "\<exists>pre post. xs = pre @ i # post \<and> key i = k \<and> (\<forall>j \<in> set pre. key j \<noteq> k)"
        by blast
    next
      assume "\<exists>pre post. xs = pre @ i # post \<and> key i = k \<and> (\<forall>j \<in> set pre. key j \<noteq> k)"
      then obtain pre post where
        "xs = pre @ i # post" and "key i = k" and "\<forall>j \<in> set pre. key j \<noteq> k"
        by blast
      with False have
        "x # xs = (x # pre) @ i # post \<and> key i = k \<and> (\<forall>j \<in> set (x # pre). key j \<noteq> k)"
        by simp
      then show "\<exists>pre post. x # xs = pre @ i # post \<and> key i = k \<and> (\<forall>j \<in> set pre. key j \<noteq> k)"
        by blast
    qed
    with False Cons.IH show ?thesis by (simp add: get_issue_Cons)
  qed
qed

lemma get_issue_Inl_iff:
  "get_issue k issues = Inl e \<longleftrightarrow> (\<forall>j \<in> set issues. key j \<noteq> k)"
  by (induction issues) (simp_all add: get_issue_Nil get_issue_Cons, cases e, simp)

lemma get_issue_key: "get_issue k issues = Inr i \<Longrightarrow> key i = k"
  by (simp add: get_issue_Inr_iff) blast

text \<open>
  C7. When some issue of the list has the key, the lookup returns the first such issue:
  the list splits into issues with other keys, the issue returned, and the rest. When no
  issue has the key the lookup fails with an \<^verbatim>\<open>IndexError\<close>; it has no third outcome.
\<close>

theorem get_issue_first_or_index_error:
  "if \<exists>i \<in> set issues. key i = k
   then \<exists>pre i post. issues = pre @ i # post \<and> key i = k \<and>
          (\<forall>j \<in> set pre. key j \<noteq> k) \<and> get_issue k issues = Inr i
   else get_issue k issues = Inl IndexError"
proof (cases "get_issue k issues")
  case (Inl e)
  then show ?thesis by (cases e) (simp add: get_issue_Inl_iff)
next
  case (Inr i)
  then have "\<exists>pre post. issues = pre @ i # post \<and> key i = k \<and> (\<forall>j \<in> set pre. key j \<noteq> k)"
    by (simp add: get_issue_Inr_iff)
  with Inr show ?thesis by auto
qed

lemma set_update_subset: "set (AList.update k v al) \<subseteq> insert (k, v) (set al)"
  by (induction al) auto

lemma issues_loop_blocks_nonempty:
  "issues_loop issue_eq check_issues all_issues component blocked rest = Inr blocked' \<Longrightarrow>
   \<forall>(k, info) \<in> set blocked. blocks info \<noteq> [] \<Longrightarrow>
   \<forall>(k, info) \<in> set blocked'. blocks info \<noteq> []"
proof (induction rest arbitrary: blocked)
  case Nil
  then show ?case by simp
next
  case (Cons issue rest)
  show ?case
  proof (cases "resolved issue")
    case True
    with Cons show ?thesis by simp
  next
    case False
    from Cons.prems(1) False obtain outs ins where
      ll: "links_loop issue_eq check_issues all_issues component ([], []) (issuelinks issue)
             = Inr (outs, ins)"
      by (auto split: sum.splits)
    show ?thesis
    proof (cases "outs = []")
      case True
      with Cons False ll show ?thesis by simp
    next
      case nonempty: False
      let ?b = "AList.update (key issue) \<lparr>blocks = outs, is_blocked_by = ins\<rparr> blocked"
      have "\<forall>(k, info) \<in> set ?b. blocks info \<noteq> []"
        using Cons.prems(2) nonempty set_update_subset [of "key issue" _ blocked] by fastforce
      moreover have "issues_loop issue_eq check_issues all_issues component ?b rest = Inr blocked'"
        using Cons.prems(1) False ll nonempty by simp
      ultimately show ?thesis by (rule Cons.IH [rotated])
    qed
  qed
qed

text \<open>
  C1. Every record of the dictionary that \<^verbatim>\<open>get_blocked\<close> returns has a non-empty
  \<^verbatim>\<open>blocks\<close> list.
\<close>

theorem get_blocked_blocks_nonempty:
  "get_blocked issue_eq check_issues all_issues component = Inr blocked \<Longrightarrow>
   (k, info) \<in> set blocked \<Longrightarrow> blocks info \<noteq> []"
  using issues_loop_blocks_nonempty [of issue_eq check_issues all_issues component "[]" check_issues blocked]
  by (auto simp: get_blocked_def)


lemma inward_branch_Inr:
  assumes "inward_branch all_issues link (outs, ins) = Inr (outs', ins')"
  shows "outs' = outs"
    and "ins' = ins \<or>
         (\<exists>ki t. inwardIssue link = Some ki \<and> get_issue ki all_issues = Inr t \<and>
            relevant t None \<and> ins' = ins @ [ki])"
  using assms
  by (auto simp: inward_branch_def dest: get_issue_key split: option.splits sum.splits if_splits)

lemma link_body_Inr:
  assumes "link_body issue_eq check_issues all_issues component (outs, ins) link = Inr (outs', ins')"
  shows "outs' = outs \<or>
         (\<exists>ko t. get_issue ko all_issues = Inr t \<and> relevant t component \<and> outs' = outs @ [ko])"
    and "ins' = ins \<or>
         (\<exists>ki t. get_issue ki all_issues = Inr t \<and> relevant t None \<and> ins' = ins @ [ki])"
proof -
  show "outs' = outs \<or>
         (\<exists>ko t. get_issue ko all_issues = Inr t \<and> relevant t component \<and> outs' = outs @ [ko])"
    using assms
    by (auto simp: link_body_def dest: get_issue_key inward_branch_Inr(1)
        split: option.splits sum.splits if_splits)
  show "ins' = ins \<or>
         (\<exists>ki t. get_issue ki all_issues = Inr t \<and> relevant t None \<and> ins' = ins @ [ki])"
    using assms
    by (auto simp: link_body_def dest!: inward_branch_Inr(2)
        split: option.splits sum.splits if_splits)
qed

lemma links_loop_sound:
  "links_loop issue_eq check_issues all_issues component (outs, ins) links = Inr (outs', ins') \<Longrightarrow>
   (\<forall>ko \<in> set outs'. ko \<in> set outs \<or>
      (\<exists>t. get_issue ko all_issues = Inr t \<and> relevant t component)) \<and>
   (\<forall>ki \<in> set ins'. ki \<in> set ins \<or>
      (\<exists>t. get_issue ki all_issues = Inr t \<and> relevant t None)) \<and>
   set ins \<subseteq> set ins'"
proof (induction links arbitrary: outs ins)
  case Nil
  then show ?case by simp
next
  case (Cons link links)
  from Cons.prems obtain outs1 ins1 where
    body: "link_body issue_eq check_issues all_issues component (outs, ins) link = Inr (outs1, ins1)"
    and rest: "links_loop issue_eq check_issues all_issues component (outs1, ins1) links = Inr (outs', ins')"
    by (auto split: sum.splits)
  note b = link_body_Inr [OF body]
  note ih = Cons.IH [OF rest]
  have "\<forall>ko \<in> set outs'. ko \<in> set outs \<or>
      (\<exists>t. get_issue ko all_issues = Inr t \<and> relevant t component)"
    using ih b(1) by fastforce
  moreover have "\<forall>ki \<in> set ins'. ki \<in> set ins \<or>
      (\<exists>t. get_issue ki all_issues = Inr t \<and> relevant t None)"
    using ih b(2) by fastforce
  moreover have "set ins \<subseteq> set ins'"
    using ih b(2) by fastforce
  ultimately show ?case by blast
qed

lemma link_body_inward_recorded:
  assumes "link_body issue_eq check_issues all_issues component (outs, ins) link = Inr (outs', ins')"
    and "type_name link = ''Blocks''"
    and "outwardIssue link = None \<or>
         (\<exists>ko t'. outwardIssue link = Some ko \<and> get_issue ko all_issues = Inr t' \<and>
            \<not> list_ex (issue_eq t') check_issues)"
    and "inwardIssue link = Some ki"
    and "get_issue ki all_issues = Inr t"
    and "relevant t None"
  shows "ki \<in> set ins'"
proof -
  from assms(5) have "key t = ki" by (rule get_issue_key)
  with assms show ?thesis
    by (auto simp: link_body_def inward_branch_def split: if_splits)
qed

lemma links_loop_inward_recorded:
  assumes "links_loop issue_eq check_issues all_issues component (outs, ins) links = Inr (outs', ins')"
    and "link \<in> set links"
    and "type_name link = ''Blocks''"
    and "outwardIssue link = None \<or>
         (\<exists>ko t'. outwardIssue link = Some ko \<and> get_issue ko all_issues = Inr t' \<and>
            \<not> list_ex (issue_eq t') check_issues)"
    and "inwardIssue link = Some ki"
    and "get_issue ki all_issues = Inr t"
    and "relevant t None"
  shows "ki \<in> set ins'"
  using assms(1,2)
proof (induction links arbitrary: outs ins)
  case Nil
  then show ?case by simp
next
  case (Cons l links)
  from Cons.prems(1) obtain outs1 ins1 where
    body: "link_body issue_eq check_issues all_issues component (outs, ins) l = Inr (outs1, ins1)"
    and rest: "links_loop issue_eq check_issues all_issues component (outs1, ins1) links = Inr (outs', ins')"
    by (auto split: sum.splits)
  show ?case
  proof (cases "link = l")
    case True
    with body have "ki \<in> set ins1"
      using link_body_inward_recorded assms(3-7) by blast
    with links_loop_sound [OF rest] show ?thesis by blast
  next
    case False
    with Cons.prems(2) have "link \<in> set links" by simp
    with Cons.IH rest show ?thesis by blast
  qed
qed

lemma issues_loop_origin:
  "issues_loop issue_eq check_issues all_issues component blocked rest = Inr blocked' \<Longrightarrow>
   map_of blocked' k = Some info \<Longrightarrow>
   map_of blocked k = Some info \<or>
   (\<exists>issue \<in> set rest. key issue = k \<and> \<not> resolved issue \<and>
      links_loop issue_eq check_issues all_issues component ([], []) (issuelinks issue) =
        Inr (blocks info, is_blocked_by info))"
proof (induction rest arbitrary: blocked)
  case Nil
  then show ?case by simp
next
  case (Cons issue rest)
  show ?case
  proof (cases "resolved issue")
    case True
    with Cons.prems have
      "issues_loop issue_eq check_issues all_issues component blocked rest = Inr blocked'"
      by simp
    from Cons.IH [OF this Cons.prems(2)] show ?thesis by auto
  next
    case False
    from Cons.prems(1) False obtain outs ins where
      ll: "links_loop issue_eq check_issues all_issues component ([], []) (issuelinks issue)
             = Inr (outs, ins)"
      by (auto split: sum.splits)
    show ?thesis
    proof (cases "outs = []")
      case True
      with Cons.prems False ll have
        "issues_loop issue_eq check_issues all_issues component blocked rest = Inr blocked'"
        by simp
      from Cons.IH [OF this Cons.prems(2)] show ?thesis by auto
    next
      case nonempty: False
      let ?r = "\<lparr>blocks = outs, is_blocked_by = ins\<rparr>"
      let ?b = "AList.update (key issue) ?r blocked"
      have "issues_loop issue_eq check_issues all_issues component ?b rest = Inr blocked'"
        using Cons.prems(1) False ll nonempty by simp
      from Cons.IH [OF this Cons.prems(2)] show ?thesis
      proof
        assume m: "map_of ?b k = Some info"
        show ?thesis
        proof (cases "k = key issue")
          case True
          with m have "info = ?r" by (simp add: update_conv')
          with True False ll show ?thesis by simp
        next
          case False
          with m show ?thesis by (simp add: update_conv')
        qed
      next
        assume "\<exists>issue \<in> set rest. key issue = k \<and> \<not> resolved issue \<and>
          links_loop issue_eq check_issues all_issues component ([], []) (issuelinks issue) =
            Inr (blocks info, is_blocked_by info)"
        then show ?thesis by auto
      qed
    qed
  qed
qed


lemma sample_lookup:
  "get_issue ''B-2'' [issue_A, issue_B, issue_C, issue_D] = Inr issue_B"
  "get_issue ''C-3'' [issue_A, issue_B, issue_C, issue_D] = Inr issue_C"
  "get_issue ''D-4'' [issue_A, issue_B, issue_C, issue_D] = Inr issue_D"
  by (simp_all add: get_issue_def issue_A_def issue_B_def issue_C_def issue_D_def sample_issue_def)

lemma sample_relevant:
  "relevant issue_B (Some ''X'')" "\<not> relevant issue_D (Some ''X'')" "relevant issue_C None"
  by (simp_all add: relevant_def resolved_def components_def issue_B_def issue_C_def
      issue_D_def sample_issue_def)

lemma sample_distinct: "issue_B \<noteq> issue_A" "issue_D \<noteq> issue_A"
  by (simp_all add: issue_A_def issue_B_def issue_D_def sample_issue_def)

lemma sample_keys: "key issue_A = ''A-1''" "key issue_B = ''B-2''" "key issue_C = ''C-3''"
  by (simp_all add: issue_A_def issue_B_def issue_C_def sample_issue_def)

lemma sample_links_loop:
  "links_loop (=) [issue_A] [issue_A, issue_B, issue_C, issue_D] (Some ''X'') ([], [])
     (issuelinks issue_A) = Inr ([''B-2''], [''C-3''])"
proof -
  let ?body = "link_body (=) [issue_A] [issue_A, issue_B, issue_C, issue_D] (Some ''X'')"
  have l: "issuelinks issue_A =
      [blocks_link (Some ''B-2'') None, blocks_link (Some ''D-4'') None,
       blocks_link None (Some ''C-3'')]"
    by (simp add: issue_A_def sample_issue_def)
  have b1: "?body ([], []) (blocks_link (Some ''B-2'') None) = Inr ([''B-2''], [])"
    by (simp add: link_body_def inward_branch_def blocks_link_def sample_lookup
        sample_relevant sample_distinct sample_keys)
  have b2: "?body ([''B-2''], []) (blocks_link (Some ''D-4'') None) = Inr ([''B-2''], [])"
    by (simp add: link_body_def inward_branch_def blocks_link_def sample_lookup
        sample_relevant sample_distinct sample_keys)
  have b3: "?body ([''B-2''], []) (blocks_link None (Some ''C-3'')) = Inr ([''B-2''], [''C-3''])"
    by (simp add: link_body_def inward_branch_def blocks_link_def sample_lookup
        sample_relevant sample_distinct sample_keys)
  show ?thesis by (simp add: l b1 b2 b3)
qed

lemma sample_get_blocked:
  "get_blocked (=) [issue_A] [issue_A, issue_B, issue_C, issue_D] (Some ''X'') =
     Inr [(''A-1'', \<lparr>blocks = [''B-2''], is_blocked_by = [''C-3'']\<rparr>)]"
proof -
  have "\<not> resolved issue_A"
    by (simp add: issue_A_def sample_issue_def resolved_def)
  then show ?thesis
    by (simp add: get_blocked_def sample_links_loop sample_keys)
qed

theorem get_issue_first_or_index_error_witness:
  "get_issue ''B-2'' [issue_A, issue_B, sample_issue ''B-2'' ''Z'' ''Low'' []] = Inr issue_B \<and>
   get_issue ''E-5'' [issue_A, issue_B, sample_issue ''B-2'' ''Z'' ''Low'' []] = Inl IndexError"
  using get_issue_first_or_index_error
      [of "[issue_A, issue_B, sample_issue ''B-2'' ''Z'' ''Low'' []]" "''B-2''"]
    get_issue_first_or_index_error
      [of "[issue_A, issue_B, sample_issue ''B-2'' ''Z'' ''Low'' []]" "''E-5''"]
  by (simp add: get_issue_def issue_A_def issue_B_def sample_issue_def)

theorem get_blocked_blocks_nonempty_witness:
  "get_blocked (=) [issue_A] [issue_A, issue_B, issue_C, issue_D] (Some ''X'') =
     Inr [(''A-1'', \<lparr>blocks = [''B-2''], is_blocked_by = [''C-3'']\<rparr>)] \<and>
   blocks \<lparr>blocks = [''B-2''], is_blocked_by = [''C-3'']\<rparr> \<noteq> []"
  using get_blocked_blocks_nonempty [OF sample_get_blocked,
      of "''A-1''" "\<lparr>blocks = [''B-2''], is_blocked_by = [''C-3'']\<rparr>"]
    sample_get_blocked
  by simp

lemma relevant_None_iff:
  "relevant t None \<longleftrightarrow>
     \<not> resolved t \<and>
     (priority_name t = ''High'' \<or> priority_name t = ''Highest'' \<or>
      severity_name t = Some ''Major'')"
  by (auto simp: relevant_def split: option.splits)

lemma relevant_not_in_component:
  "relevant t component \<Longrightarrow> component \<notin> set (map Some (components t))"
  by (simp add: relevant_def split: if_splits)

text \<open>
  C5. In a record that \<^verbatim>\<open>get_blocked\<close> returns, every key under \<^verbatim>\<open>is-blocked-by\<close> is
  that of a target which passes the filter with the component argument \<^verbatim>\<open>None\<close>, and
  every key under \<^verbatim>\<open>blocks\<close> is that of a target which passes the filter with the
  component of the call, so no target of the component itself is among them. With
  unique keys in the issues to check, the target of a link of type Blocks with an
  \<^verbatim>\<open>inwardIssue\<close>, whose iteration the \<^verbatim>\<open>continue\<close> of the outward branch does not cut
  short, is recorded under \<^verbatim>\<open>is-blocked-by\<close> exactly when it passes the filter with
  \<^verbatim>\<open>None\<close>: when it is unresolved and of High or Highest priority or Major severity,
  whatever its components are.
\<close>

theorem get_blocked_inward_ignores_component:
  assumes gb: "get_blocked issue_eq check_issues all_issues component = Inr blocked"
    and rec: "map_of blocked k = Some info"
  shows
    "(\<forall>ki \<in> set (is_blocked_by info).
        \<exists>t. get_issue ki all_issues = Inr t \<and> relevant t None) \<and>
     (\<forall>ko \<in> set (blocks info).
        \<exists>t. get_issue ko all_issues = Inr t \<and> relevant t component \<and>
          component \<notin> set (map Some (components t))) \<and>
     (\<forall>issue link ki t.
        distinct (map key check_issues) \<and> issue \<in> set check_issues \<and> key issue = k \<and>
        link \<in> set (issuelinks issue) \<and> type_name link = ''Blocks'' \<and>
        (outwardIssue link = None \<or>
         (\<exists>ko t'. outwardIssue link = Some ko \<and> get_issue ko all_issues = Inr t' \<and>
            \<not> list_ex (issue_eq t') check_issues)) \<and>
        inwardIssue link = Some ki \<and> get_issue ki all_issues = Inr t
        \<longrightarrow>
        (ki \<in> set (is_blocked_by info) \<longleftrightarrow> relevant t None) \<and>
        (relevant t None \<longleftrightarrow>
           \<not> resolved t \<and>
           (priority_name t = ''High'' \<or> priority_name t = ''Highest'' \<or>
            severity_name t = Some ''Major'')))"
proof -
  from gb rec obtain i where
    i: "i \<in> set check_issues" "key i = k" "\<not> resolved i"
    and ll: "links_loop issue_eq check_issues all_issues component ([], []) (issuelinks i) =
      Inr (blocks info, is_blocked_by info)"
    using issues_loop_origin [of issue_eq check_issues all_issues component "[]" check_issues
        blocked k info]
    by (auto simp: get_blocked_def)
  note sound = links_loop_sound [OF ll]
  have inward: "\<forall>ki \<in> set (is_blocked_by info).
      \<exists>t. get_issue ki all_issues = Inr t \<and> relevant t None"
    using sound by simp
  have outward: "\<forall>ko \<in> set (blocks info).
      \<exists>t. get_issue ko all_issues = Inr t \<and> relevant t component \<and>
        component \<notin> set (map Some (components t))"
    using sound relevant_not_in_component by fastforce
  have recorded: "(ki \<in> set (is_blocked_by info) \<longleftrightarrow> relevant t None)"
    if d: "distinct (map key check_issues)" and m: "issue \<in> set check_issues" "key issue = k"
      and l: "link \<in> set (issuelinks issue)" "type_name link = ''Blocks''"
        "outwardIssue link = None \<or>
         (\<exists>ko t'. outwardIssue link = Some ko \<and> get_issue ko all_issues = Inr t' \<and>
            \<not> list_ex (issue_eq t') check_issues)"
        "inwardIssue link = Some ki"
      and t: "get_issue ki all_issues = Inr t"
    for issue link ki t
  proof
    assume "ki \<in> set (is_blocked_by info)"
    with inward t show "relevant t None" by fastforce
  next
    assume r: "relevant t None"
    from d have "inj_on key (set check_issues)" by (simp add: distinct_map)
    with m i have "issue = i" by (auto dest: inj_onD)
    with l have "link \<in> set (issuelinks i)" by simp
    from links_loop_inward_recorded [OF ll this l(2) l(3) l(4) t r]
    show "ki \<in> set (is_blocked_by info)" .
  qed
  from inward outward recorded relevant_None_iff show ?thesis by blast
qed

theorem get_blocked_inward_ignores_component_witness:
  "get_blocked (=) [issue_A] [issue_A, issue_B, issue_C, issue_D] (Some ''X'') =
     Inr [(''A-1'', \<lparr>blocks = [''B-2''], is_blocked_by = [''C-3'']\<rparr>)] \<and>
   blocks_link None (Some ''C-3'') \<in> set (issuelinks issue_A) \<and>
   get_issue ''C-3'' [issue_A, issue_B, issue_C, issue_D] = Inr issue_C \<and>
   ''X'' \<in> set (components issue_C) \<and>
   ''C-3'' \<in> set (is_blocked_by \<lparr>blocks = [''B-2''], is_blocked_by = [''C-3'']\<rparr>) \<and>
   blocks_link (Some ''D-4'') None \<in> set (issuelinks issue_A) \<and>
   get_issue ''D-4'' [issue_A, issue_B, issue_C, issue_D] = Inr issue_D \<and>
   ''X'' \<in> set (components issue_D) \<and>
   ''D-4'' \<notin> set (blocks \<lparr>blocks = [''B-2''], is_blocked_by = [''C-3'']\<rparr>)"
proof -
  let ?info = "\<lparr>blocks = [''B-2''], is_blocked_by = [''C-3'']\<rparr>"
  let ?all = "[issue_A, issue_B, issue_C, issue_D]"
  have m: "map_of [(''A-1'', ?info)] ''A-1'' = Some ?info"
    by simp
  note th = get_blocked_inward_ignores_component [OF sample_get_blocked m]
  have links: "blocks_link None (Some ''C-3'') \<in> set (issuelinks issue_A)"
    "blocks_link (Some ''D-4'') None \<in> set (issuelinks issue_A)"
    by (simp_all add: issue_A_def sample_issue_def)
  have comps: "''X'' \<in> set (components issue_C)" "''X'' \<in> set (components issue_D)"
    by (simp_all add: components_def issue_C_def issue_D_def sample_issue_def)
  have "distinct (map key [issue_A]) \<and> issue_A \<in> set [issue_A] \<and> key issue_A = ''A-1'' \<and>
      blocks_link None (Some ''C-3'') \<in> set (issuelinks issue_A) \<and>
      type_name (blocks_link None (Some ''C-3'')) = ''Blocks'' \<and>
      outwardIssue (blocks_link None (Some ''C-3'')) = None \<and>
      inwardIssue (blocks_link None (Some ''C-3'')) = Some ''C-3'' \<and>
      get_issue ''C-3'' ?all = Inr issue_C"
    using links by (simp add: sample_keys sample_lookup blocks_link_def)
  with th have "''C-3'' \<in> set (is_blocked_by ?info) \<longleftrightarrow> relevant issue_C None"
    by blast
  then have inward: "''C-3'' \<in> set (is_blocked_by ?info)"
    by (simp add: sample_relevant)
  have outward: "''D-4'' \<notin> set (blocks ?info)"
  proof
    assume "''D-4'' \<in> set (blocks ?info)"
    with th obtain t where "get_issue ''D-4'' ?all = Inr t" "relevant t (Some ''X'')"
      by blast
    then show False by (simp add: sample_lookup sample_relevant)
  qed
  from inward outward links comps show ?thesis
    by (simp only: sample_get_blocked sample_lookup simp_thms)
qed

section \<open>Properties of the graph renderer\<close>

lemma stdout_print: "stdout (print s w) = stdout w @ [s]"
  by (simp add: print_def)

lemma requests_print: "requests (print s w) = requests w"
  by (simp add: print_def)

lemma stdout_output_blocks:
  "stdout (output_blocks issue outs w) =
     stdout w @ concat (map (\<lambda>out_issue.
       [node out_issue False, node issue False @ '' -> '' @ node out_issue False @ '';'']) outs)"
  by (induction outs arbitrary: w) (simp_all add: stdout_print)

lemma stdout_output_item:
  "stdout (output_item (issue, blocked_info) w) =
     stdout w @
     (if is_blocked_by blocked_info = [] then [node issue True] else []) @
     concat (map (\<lambda>out_issue.
       [node out_issue False, node issue False @ '' -> '' @ node out_issue False @ '';''])
       (blocks blocked_info))"
  by (simp add: output_item_def stdout_output_blocks stdout_print)

lemma stdout_output_items:
  "stdout (output_items items w) =
     stdout w @ concat (map (\<lambda>(issue, blocked_info).
       (if is_blocked_by blocked_info = [] then [node issue True] else []) @
       concat (map (\<lambda>out_issue.
         [node out_issue False, node issue False @ '' -> '' @ node out_issue False @ '';''])
         (blocks blocked_info))) items)"
proof (induction items arbitrary: w)
  case Nil
  show ?case by simp
next
  case (Cons item items)
  obtain issue blocked_info where "item = (issue, blocked_info)" by (cases item)
  with Cons show ?case by (simp add: stdout_output_item)
qed

lemma stdout_output_digraph:
  "stdout (output_digraph blocked w) =
     stdout w @ [header] @ concat (map (\<lambda>(issue, blocked_info).
       (if is_blocked_by blocked_info = [] then [node issue True] else []) @
       concat (map (\<lambda>out_issue.
         [node out_issue False, node issue False @ '' -> '' @ node out_issue False @ '';''])
         (blocks blocked_info))) blocked) @ [''}'']"
  by (simp add: output_digraph_def stdout_print stdout_output_items)

lemma node_special: "node issue True = [dquote] @ issue @ [dquote] @ '' [ shape = triangle ]''"
  by (simp add: node_def)

lemma node_default: "node issue False = [dquote] @ issue @ [dquote] @ '' ''"
  by (simp add: node_def)

lemma suffix_marker_node: "suffix ''[ shape = triangle ]'' (node issue special) \<longleftrightarrow> special"
proof (cases special)
  case True
  then show ?thesis by (simp add: node_def suffix_def) 
next
  case False
  have "\<not> suffix ''[ shape = triangle ]'' (([dquote] @ issue @ [dquote]) @ '' '')"
    unfolding suffix_snoc by simp
  with False show ?thesis by (simp add: node_def)
qed

lemma suffix_marker_edge:
  "\<not> suffix ''[ shape = triangle ]'' (node a False @ '' -> '' @ node b False @ '';'')"
proof -
  have "\<not> suffix ''[ shape = triangle ]'' ((node a False @ '' -> '' @ node b False) @ '';'')"
    unfolding suffix_snoc by simp
  then show ?thesis by simp
qed

lemma suffix_marker_header: "\<not> suffix ''[ shape = triangle ]'' header"
  by (simp add: header_def suffix_def)

lemma suffix_marker_brace: "\<not> suffix ''[ shape = triangle ]'' ''}''"
  by (simp add: suffix_def)


text \<open>
  C6. Of the lines that the renderer prints: for every record with an empty
  \<^verbatim>\<open>is-blocked-by\<close> list the issue's own node is printed with the triangle marker; for
  every target in a \<^verbatim>\<open>blocks\<close> list the target's node is printed in the default form,
  the quoted key and nothing else; and a printed line ends with the triangle marker only
  when it is the own node of a record with an empty \<^verbatim>\<open>is-blocked-by\<close> list.
\<close>

theorem output_digraph_shapes:
  "let emitted = drop (length (stdout w)) (stdout (output_digraph blocked w)) in
     stdout (output_digraph blocked w) = stdout w @ emitted \<and>
     (\<forall>(issue, info) \<in> set blocked.
        is_blocked_by info = [] \<longrightarrow> node issue True \<in> set emitted) \<and>
     (\<forall>(issue, info) \<in> set blocked.
        \<forall>out_issue \<in> set (blocks info). node out_issue False \<in> set emitted) \<and>
     (\<forall>line \<in> set emitted.
        suffix ''[ shape = triangle ]'' line \<longrightarrow>
        (\<exists>(issue, info) \<in> set blocked. is_blocked_by info = [] \<and> line = node issue True)) \<and>
     (\<forall>issue.
        node issue True = [dquote] @ issue @ [dquote] @ '' [ shape = triangle ]'' \<and>
        node issue False = [dquote] @ issue @ [dquote] @ '' '')"
proof -
  define edge where "edge = (\<lambda>a b. node a False @ '' -> '' @ node b False @ '';'')"
  have no_edge: "\<not> suffix ''[ shape = triangle ]'' (edge a b)" for a b
    unfolding edge_def by (rule suffix_marker_edge)
  define lines where "lines = (\<lambda>(issue, blocked_info :: blocking_info).
       (if is_blocked_by blocked_info = [] then [node issue True] else []) @
       concat (map (\<lambda>out_issue. [node out_issue False, edge issue out_issue])
         (blocks blocked_info)))"
  define emitted where "emitted = [header] @ concat (map lines blocked) @ [''}'']"
  have out: "stdout (output_digraph blocked w) = stdout w @ emitted"
    by (simp add: stdout_output_digraph emitted_def lines_def edge_def)
  then have em: "drop (length (stdout w)) (stdout (output_digraph blocked w)) = emitted"
    by simp
  have own: "node issue True \<in> set emitted"
    if "(issue, info) \<in> set blocked" "is_blocked_by info = []" for issue info
  proof -
    from that have "node issue True \<in> set (lines (issue, info))"
      by (simp add: lines_def)
    with that(1) show ?thesis
      by (auto simp: emitted_def)
  qed
  have target: "node out_issue False \<in> set emitted"
    if "(issue, info) \<in> set blocked" "out_issue \<in> set (blocks info)" for issue info out_issue
  proof -
    from that have "node out_issue False \<in> set (lines (issue, info))"
      by (auto simp: lines_def)
    with that(1) show ?thesis
      by (auto simp: emitted_def)
  qed
  have marked: "\<exists>(issue, info) \<in> set blocked. is_blocked_by info = [] \<and> line = node issue True"
    if "line \<in> set emitted" "suffix ''[ shape = triangle ]'' line" for line
  proof -
    from that(1) consider "line = header" | "line = ''}''"
      | issue info where "(issue, info) \<in> set blocked" "line \<in> set (lines (issue, info))"
      by (auto simp: emitted_def)
    then show ?thesis
    proof cases
      case 1
      with that(2) show ?thesis by (simp add: suffix_marker_header)
    next
      case 2
      with that(2) show ?thesis by (simp add: suffix_marker_brace)
    next
      case 3
      from 3(2) that(2) have "is_blocked_by info = [] \<and> line = node issue True"
        by (auto simp: lines_def suffix_marker_node no_edge split: if_splits)
      with 3(1) show ?thesis by blast
    qed
  qed
  from out own target marked show ?thesis
    unfolding Let_def em by (simp add: node_special node_default) blast
qed


theorem output_digraph_shapes_witness:
  "node ''A-1'' True \<in> set (stdout (output_digraph
      [(''A-1'', \<lparr>blocks = [''B-2''], is_blocked_by = []\<rparr>),
       (''E-5'', \<lparr>blocks = [''F-6''], is_blocked_by = [''C-3'']\<rparr>)] empty_world)) \<and>
   node ''B-2'' False \<in> set (stdout (output_digraph
      [(''A-1'', \<lparr>blocks = [''B-2''], is_blocked_by = []\<rparr>),
       (''E-5'', \<lparr>blocks = [''F-6''], is_blocked_by = [''C-3'']\<rparr>)] empty_world)) \<and>
   node ''E-5'' True \<notin> set (stdout (output_digraph
      [(''A-1'', \<lparr>blocks = [''B-2''], is_blocked_by = []\<rparr>),
       (''E-5'', \<lparr>blocks = [''F-6''], is_blocked_by = [''C-3'']\<rparr>)] empty_world)) \<and>
   node ''A-1'' True = [dquote] @ ''A-1'' @ [dquote] @ '' [ shape = triangle ]''"
proof -
  let ?blocked = "[(''A-1'', \<lparr>blocks = [''B-2''], is_blocked_by = []\<rparr>),
       (''E-5'', \<lparr>blocks = [''F-6''], is_blocked_by = [''C-3'']\<rparr>)]"
  let ?out = "stdout (output_digraph ?blocked empty_world)"
  have e: "drop (length (stdout empty_world)) ?out = ?out"
    by (simp add: empty_world_def)
  note th = output_digraph_shapes [of empty_world ?blocked, unfolded Let_def e]
  from th have "\<forall>(issue, info) \<in> set ?blocked.
      is_blocked_by info = [] \<longrightarrow> node issue True \<in> set ?out"
    by blast
  then have own: "node ''A-1'' True \<in> set ?out"
    by simp
  from th have "\<forall>(issue, info) \<in> set ?blocked.
      \<forall>out_issue \<in> set (blocks info). node out_issue False \<in> set ?out"
    by blast
  then have target: "node ''B-2'' False \<in> set ?out"
    by simp
  have other: "node ''E-5'' True \<notin> set ?out"
  proof
    assume "node ''E-5'' True \<in> set ?out"
    moreover have "suffix ''[ shape = triangle ]'' (node ''E-5'' True)"
      by (simp add: suffix_marker_node)
    ultimately have "\<exists>(issue, info) \<in> set ?blocked.
        is_blocked_by info = [] \<and> node ''E-5'' True = node issue True"
      using th by blast
    then show False by (simp add: node_def)
  qed
  from th have "node ''A-1'' True = [dquote] @ ''A-1'' @ [dquote] @ '' [ shape = triangle ]''"
    by blast
  with own target other show ?thesis by blast
qed

section \<open>A reference that cannot be resolved stops the linker\<close>

text \<open>
  A link of type Blocks of an unresolved issue to check, whose key is that of no known
  issue, makes \<^verbatim>\<open>get_blocked\<close> fail: the error of the lookup is not caught.
\<close>

lemma error_is_IndexError: "(e :: error) = IndexError"
  by (cases e)

lemma link_body_dangling:
  assumes "type_name link = ''Blocks''"
    and "get_issue k all_issues = Inl IndexError"
    and "outwardIssue link = Some k \<or> (outwardIssue link = None \<and> inwardIssue link = Some k)"
  shows "link_body issue_eq check_issues all_issues component acc link = Inl IndexError"
  using assms by (cases acc) (auto simp: link_body_def inward_branch_def)

lemma links_loop_dangling:
  assumes "link \<in> set links"
    and "type_name link = ''Blocks''"
    and "get_issue k all_issues = Inl IndexError"
    and "outwardIssue link = Some k \<or> (outwardIssue link = None \<and> inwardIssue link = Some k)"
  shows "links_loop issue_eq check_issues all_issues component acc links = Inl IndexError"
  using assms(1)
proof (induction links arbitrary: acc)
  case Nil
  then show ?case by simp
next
  case (Cons l links)
  show ?case
  proof (cases "link_body issue_eq check_issues all_issues component acc l")
    case (Inl e)
    then show ?thesis by (simp add: error_is_IndexError [of e])
  next
    case (Inr acc')
    have "link \<noteq> l"
    proof
      assume "link = l"
      with link_body_dangling [OF assms(2-4), of issue_eq check_issues component acc] Inr
      show False by simp
    qed
    with Cons.prems have "link \<in> set links" by simp
    with Cons.IH Inr show ?thesis by simp
  qed
qed

lemma issues_loop_dangling:
  assumes "issue \<in> set rest" and "\<not> resolved issue"
    and "link \<in> set (issuelinks issue)"
    and "type_name link = ''Blocks''"
    and "get_issue k all_issues = Inl IndexError"
    and "outwardIssue link = Some k \<or> (outwardIssue link = None \<and> inwardIssue link = Some k)"
  shows "issues_loop issue_eq check_issues all_issues component blocked rest = Inl IndexError"
  using assms(1)
proof (induction rest arbitrary: blocked)
  case Nil
  then show ?case by simp
next
  case (Cons i rest)
  show ?case
  proof (cases "i = issue")
    case True
    with assms(2) links_loop_dangling [OF assms(3-6)] show ?thesis by simp
  next
    case False
    with Cons.prems have "issue \<in> set rest" by simp
    with Cons.IH show ?thesis
      by (auto simp: error_is_IndexError split: sum.splits)
  qed
qed

lemma get_blocked_dangling_reference:
  assumes "issue \<in> set check_issues" and "\<not> resolved issue"
    and "link \<in> set (issuelinks issue)"
    and "type_name link = ''Blocks''"
    and "get_issue k all_issues = Inl IndexError"
    and "outwardIssue link = Some k \<or> (outwardIssue link = None \<and> inwardIssue link = Some k)"
  shows "get_blocked issue_eq check_issues all_issues component = Inl IndexError"
  unfolding get_blocked_def using assms by (rule issues_loop_dangling)

section \<open>Properties of the fetcher, the main method and the command line\<close>

lemma component_issues_loop_once:
  "component_issues_loop self query inc counter issues w =
     Some (issues @ map (jira_issue self) (search_issues self query counter inc),
           w\<lparr>requests := requests w @ [(query, counter, inc)]\<rparr>)"
  by (subst component_issues_loop.simps) (simp add: issues_chunk_def)

lemma component_issues_eq:
  "component_issues self project component w =
     Some (map (jira_issue self) (search_issues self (component_query project component) 0 1000),
           print (''# Found '' @
                  str_nat (length (search_issues self (component_query project component) 0 1000)) @
                  '' matching issues.'')
             ((print (''# JQL: '' @ component_query project component) w)
                \<lparr>requests := requests w @ [(component_query project component, 0, 1000)]\<rparr>))"
  by (simp add: component_issues_def component_issues_loop_once MAX_ISSUES_def requests_print
      Let_def)

lemma component_issues_requests:
  "component_issues self project component w = Some (issues, w') \<Longrightarrow>
   requests w' = requests w @ [(component_query project component, 0, 1000)]"
  by (auto simp: component_issues_eq requests_print)

text \<open>
  C8. \<^verbatim>\<open>component_issues\<close> returns, after one search: the search for the query from index
  0 with the maximum 1000. Its result is the issues of that one answer. For a tracker that
  answers with pages of a result list, these are the first 1000 results at most, and
  what lies beyond them is not fetched.
\<close>

theorem component_issues_first_chunk_only:
  "MAX_ISSUES = 1000 \<and>
   (\<exists>w'. component_issues self project component w =
        Some (map (jira_issue self)
                (search_issues self (component_query project component) 0 1000), w') \<and>
      requests w' = requests w @ [(component_query project component, 0, 1000)]) \<and>
   ((\<forall>start_at max_results.
       search_issues self (component_query project component) start_at max_results =
         take max_results (drop start_at results)) \<longrightarrow>
    (\<exists>w'. component_issues self project component w =
        Some (map (jira_issue self) (take 1000 results), w')) \<and>
    length (take 1000 results) \<le> 1000)"
  by (simp add: component_issues_eq requests_print MAX_ISSUES_def)

theorem component_issues_first_chunk_only_witness:
  "(\<forall>start_at max_results.
      search_issues (sample_jira (\<lambda>query. replicate 1001 issue_B)) (component_query ''P'' None)
        start_at max_results =
      take max_results (drop start_at (replicate 1001 issue_B))) \<and>
   map_option fst
     (component_issues (sample_jira (\<lambda>query. replicate 1001 issue_B)) ''P'' None empty_world) =
     Some (replicate 1000 issue_B) \<and>
   map_option (requests \<circ> snd)
     (component_issues (sample_jira (\<lambda>query. replicate 1001 issue_B)) ''P'' None empty_world) =
     Some [(''project=P'', 0, 1000)]"
proof -
  let ?J = "sample_jira (\<lambda>query. replicate 1001 issue_B)"
  have paged: "\<forall>start_at max_results.
      search_issues ?J (component_query ''P'' None) start_at max_results =
      take max_results (drop start_at (replicate 1001 issue_B))"
    by (simp add: sample_jira_def)
  note th = component_issues_first_chunk_only [of ?J "''P''" None empty_world
      "replicate 1001 issue_B"]
  from th paged obtain w' where
    r: "component_issues ?J ''P'' None empty_world =
      Some (map (jira_issue ?J) (take 1000 (replicate 1001 issue_B)), w')"
    by blast
  from th obtain w'' where
    "component_issues ?J ''P'' None empty_world =
      Some (map (jira_issue ?J) (search_issues ?J (component_query ''P'' None) 0 1000), w'')"
    and "requests w'' = requests empty_world @ [(component_query ''P'' None, 0, 1000)]"
    by blast
  with r have q: "requests w' = [(''project=P'', 0, 1000)]"
    by (simp add: empty_world_def component_query_def)
  have "map (jira_issue ?J) (take 1000 (replicate 1001 issue_B)) = replicate 1000 issue_B"
    by (simp add: sample_jira_def)
  with r q paged show ?thesis by simp
qed


lemma component_query_None: "component_query project None = ''project='' @ project"
  by (simp add: component_query_def)

lemma component_query_Some:
  "component_query project (Some c) = ''project='' @ project @ '' AND component='' @ c"
  by (simp add: component_query_def)

lemma run_with_get_blocked:
  "\<exists>w'. run self issue_eq project component w =
      Some (case get_blocked issue_eq
                   (map (jira_issue self)
                      (search_issues self (component_query project component) 0 1000))
                   (map (jira_issue self) (search_issues self (''project='' @ project) 0 1000) @
                    map (jira_issue self) (search_issues self ''project=TFAPD'' 0 1000))
                   component of
              Inl e \<Rightarrow> (Raised e, w')
            | Inr blocked \<Rightarrow> (Returned, output_digraph blocked w')) \<and>
      requests w' = requests w @
        [(''project='' @ project, 0, 1000), (''project=TFAPD'', 0, 1000),
         (component_query project component, 0, 1000)]"
proof -
  obtain a w1 where c1: "component_issues self project None w = Some (a, w1)"
    and a: "a = map (jira_issue self) (search_issues self (''project='' @ project) 0 1000)"
    by (simp add: component_issues_eq component_query_None)
  obtain b w2 where c2: "component_issues self ''TFAPD'' None w1 = Some (b, w2)"
    and b: "b = map (jira_issue self) (search_issues self ''project=TFAPD'' 0 1000)"
    by (simp add: component_issues_eq component_query_None)
  obtain c w3 where c3: "component_issues self project component w2 = Some (c, w3)"
    and c: "c = map (jira_issue self)
      (search_issues self (component_query project component) 0 1000)"
    by (simp add: component_issues_eq)
  define w4 where "w4 = print (''# '' @ str_nat (length c) @ '' in '' @
      (case component of None \<Rightarrow> ''None'' | Some c \<Rightarrow> c)) w3"
  have r: "run self issue_eq project component w =
      (case get_blocked issue_eq c (a @ b) component of
         Inl e \<Rightarrow> Some (Raised e, w4)
       | Inr blocked \<Rightarrow> Some (Returned, output_digraph blocked w4))"
    by (simp add: run_def c1 c2 c3 w4_def Let_def split: sum.splits)
  have q: "requests w4 = requests w @
      [(''project='' @ project, 0, 1000), (''project=TFAPD'', 0, 1000),
       (component_query project component, 0, 1000)]"
    using component_issues_requests [OF c1] component_issues_requests [OF c2]
      component_issues_requests [OF c3]
    by (simp add: w4_def requests_print component_query_None)
  from r q show ?thesis
    unfolding a b c by (intro exI [of _ w4]) (simp split: sum.splits)
qed

text \<open>
  C9. \<^verbatim>\<open>run\<close> sends three searches: for the project, for the project TFAPD, and for the
  project with the component. The issues in which \<^verbatim>\<open>get_blocked\<close> looks the targets of
  links up are the answer for the project followed by the answer for TFAPD, whatever the
  project is; the issues to check are the answer of the third search.
\<close>

theorem run_all_issues:
  "\<exists>w'. run self issue_eq project component w =
      Some (case get_blocked issue_eq
                   (map (jira_issue self)
                      (search_issues self (component_query project component) 0 1000))
                   (map (jira_issue self) (search_issues self (''project='' @ project) 0 1000) @
                    map (jira_issue self) (search_issues self ''project=TFAPD'' 0 1000))
                   component of
              Inl e \<Rightarrow> (Raised e, w')
            | Inr blocked \<Rightarrow> (Returned, output_digraph blocked w')) \<and>
      requests w' = requests w @
        [(''project='' @ project, 0, 1000), (''project=TFAPD'', 0, 1000),
         (component_query project component, 0, 1000)]"
  by (rule run_with_get_blocked)

lemma sample_chunks:
  "map (jira_issue (sample_jira sample_results))
     (search_issues (sample_jira sample_results) ''project=P'' 0 1000) = [issue_A]"
  "map (jira_issue (sample_jira sample_results))
     (search_issues (sample_jira sample_results) ''project=TFAPD'' 0 1000) =
     [issue_B, issue_C, issue_D]"
  "map (jira_issue (sample_jira sample_results))
     (search_issues (sample_jira sample_results) ''project=P AND component=X'' 0 1000) =
     [issue_A]"
  by (simp_all add: sample_jira_def sample_results_def)

theorem run_all_issues_witness:
  "\<exists>w'. run (sample_jira sample_results) (=) ''P'' (Some ''X'') empty_world =
      Some (Returned,
        output_digraph [(''A-1'', \<lparr>blocks = [''B-2''], is_blocked_by = [''C-3'']\<rparr>)] w') \<and>
      requests w' =
        [(''project=P'', 0, 1000), (''project=TFAPD'', 0, 1000),
         (''project=P AND component=X'', 0, 1000)]"
  using run_all_issues [of "sample_jira sample_results" "(=)" "''P''" "Some ''X''" empty_world]
  by (simp add: component_query_Some sample_chunks sample_get_blocked empty_world_def)

section \<open>The component of the command line on its way to the filter\<close>

text \<open>
  The linker hands its component argument to the filter for every outward target, and
  looks every target up among all issues. So two component arguments on which the
  filter agrees for all issues give the same dictionary.
\<close>

lemma get_issue_in_set: "get_issue k issues = Inr i \<Longrightarrow> i \<in> set issues"
  by (auto simp: get_issue_Inr_iff)

lemma link_body_relevant_cong:
  assumes "\<forall>t \<in> set all_issues. relevant t c1 = relevant t c2"
  shows "link_body issue_eq check_issues all_issues c1 acc link =
         link_body issue_eq check_issues all_issues c2 acc link"
proof (cases acc)
  case (Pair outs ins)
  show ?thesis
  proof (cases "outwardIssue link")
    case None
    with Pair show ?thesis by (simp add: link_body_def)
  next
    case (Some ko)
    show ?thesis
    proof (cases "get_issue ko all_issues")
      case (Inl e)
      with Pair Some show ?thesis by (simp add: link_body_def)
    next
      case (Inr t)
      then have "t \<in> set all_issues" by (rule get_issue_in_set)
      with assms have "relevant t c1 = relevant t c2" by blast
      with Pair Some Inr show ?thesis by (simp add: link_body_def)
    qed
  qed
qed

lemma links_loop_relevant_cong:
  assumes "\<forall>t \<in> set all_issues. relevant t c1 = relevant t c2"
  shows "links_loop issue_eq check_issues all_issues c1 acc links =
         links_loop issue_eq check_issues all_issues c2 acc links"
proof (induction links arbitrary: acc)
  case Nil
  show ?case by simp
next
  case (Cons link links)
  show ?case
    by (cases "link_body issue_eq check_issues all_issues c2 acc link")
      (simp_all add: link_body_relevant_cong [OF assms] Cons.IH)
qed

lemma issues_loop_relevant_cong:
  assumes "\<forall>t \<in> set all_issues. relevant t c1 = relevant t c2"
  shows "issues_loop issue_eq check_issues all_issues c1 blocked rest =
         issues_loop issue_eq check_issues all_issues c2 blocked rest"
proof (induction rest arbitrary: blocked)
  case Nil
  show ?case by simp
next
  case (Cons issue rest)
  show ?case
  proof (cases "links_loop issue_eq check_issues all_issues c2 ([], []) (issuelinks issue)")
    case (Inl e)
    then show ?thesis
      by (simp add: links_loop_relevant_cong [OF assms] Cons.IH)
  next
    case (Inr acc)
    then show ?thesis
      by (cases acc) (simp add: links_loop_relevant_cong [OF assms] Cons.IH)
  qed
qed

lemma get_blocked_relevant_cong:
  assumes "\<forall>t \<in> set all_issues. relevant t c1 = relevant t c2"
  shows "get_blocked issue_eq check_issues all_issues c1 =
         get_blocked issue_eq check_issues all_issues c2"
  unfolding get_blocked_def using assms by (rule issues_loop_relevant_cong)

lemma get_blocked_outward_relevant:
  assumes "get_blocked issue_eq check_issues all_issues component = Inr blocked"
    and "map_of blocked k = Some info"
  shows "\<forall>ko \<in> set (blocks info). \<exists>t. get_issue ko all_issues = Inr t \<and> relevant t component"
proof -
  from assms have "\<exists>i \<in> set check_issues. key i = k \<and> \<not> resolved i \<and>
      links_loop issue_eq check_issues all_issues component ([], []) (issuelinks i) =
        Inr (blocks info, is_blocked_by info)"
    using issues_loop_origin [of issue_eq check_issues all_issues component "[]" check_issues
        blocked k info]
    by (simp add: get_blocked_def)
  then obtain i :: issue where
    "links_loop issue_eq check_issues all_issues component ([], []) (issuelinks i) =
      Inr (blocks info, is_blocked_by info)"
    by blast
  from links_loop_sound [OF this] show ?thesis by simp
qed

lemma relevant_quoted:
  assumes "\<forall>c \<in> set (components issue). dquote \<notin> set c"
  shows "relevant issue (Some ([dquote] @ x @ [dquote])) = relevant issue None"
proof -
  from assms have "[dquote] @ x @ [dquote] \<notin> set (components issue)"
    by auto
  then show ?thesis by (auto simp: relevant_def)
qed

text \<open>
  C10. With five command line arguments, the component that the top level passes to
  \<^verbatim>\<open>run\<close> is the fifth argument between two double-quote characters, and the query for
  the component carries it in this form. \<^verbatim>\<open>run\<close> passes it on: the outcome of the top
  level is that of \<^verbatim>\<open>get_blocked\<close> called with this quoted component, on the answer to
  the component's query and on the answers for the project and for TFAPD; and every key
  under \<^verbatim>\<open>blocks\<close> in the dictionary is that of a target for which \<^verbatim>\<open>relevant\<close> holds with
  the quoted component. For an issue whose component names contain no double-quote
  character the filter answers for the quoted component as it does for \<^verbatim>\<open>None\<close>, since
  the quoted string equals none of the names; when all issues are such, \<^verbatim>\<open>get_blocked\<close>
  returns for the quoted component what it returns for \<^verbatim>\<open>None\<close>.
\<close>

theorem main_component_quoted:
  assumes "length argv = 5"
  shows
    "let self = connect (argv ! 1) getpass (argv ! 2);
         COMPONENT = Some ([dquote] @ argv ! 4 @ [dquote]);
         issues_to_check = map (jira_issue self)
           (search_issues self
              (''project='' @ argv ! 3 @ '' AND component='' @ [dquote] @ argv ! 4 @ [dquote])
              0 1000);
         all_issues =
           map (jira_issue self) (search_issues self (''project='' @ argv ! 3) 0 1000) @
           map (jira_issue self) (search_issues self ''project=TFAPD'' 0 1000)
     in
       main connect getpass issue_eq argv w = run self issue_eq (argv ! 3) COMPONENT w \<and>
       component_query (argv ! 3) COMPONENT =
         ''project='' @ argv ! 3 @ '' AND component='' @ [dquote] @ argv ! 4 @ [dquote] \<and>
       (\<forall>issue.
          (\<forall>c \<in> set (components issue). dquote \<notin> set c) \<longrightarrow>
          relevant issue COMPONENT = relevant issue None) \<and>
       (\<exists>w'. main connect getpass issue_eq argv w =
            Some (case get_blocked issue_eq issues_to_check all_issues COMPONENT of
                    Inl e \<Rightarrow> (Raised e, w')
                  | Inr blocked \<Rightarrow> (Returned, output_digraph blocked w')) \<and>
          requests w' = requests w @
            [(''project='' @ argv ! 3, 0, 1000), (''project=TFAPD'', 0, 1000),
             (''project='' @ argv ! 3 @ '' AND component='' @ [dquote] @ argv ! 4 @ [dquote],
              0, 1000)]) \<and>
       (\<forall>blocked k info.
          get_blocked issue_eq issues_to_check all_issues COMPONENT = Inr blocked \<and>
          map_of blocked k = Some info \<longrightarrow>
          (\<forall>ko \<in> set (blocks info).
             \<exists>t. get_issue ko all_issues = Inr t \<and> relevant t COMPONENT)) \<and>
       ((\<forall>t \<in> set all_issues. \<forall>c \<in> set (components t). dquote \<notin> set c) \<longrightarrow>
        get_blocked issue_eq issues_to_check all_issues COMPONENT =
        get_blocked issue_eq issues_to_check all_issues None)"
proof -
  define self where "self = connect (argv ! 1) getpass (argv ! 2)"
  define quoted where "quoted = [dquote] @ argv ! 4 @ [dquote]"
  define query where
    "query = ''project='' @ argv ! 3 @ '' AND component='' @ [dquote] @ argv ! 4 @ [dquote]"
  define issues_to_check where
    "issues_to_check = map (jira_issue self) (search_issues self query 0 1000)"
  define all_issues where "all_issues =
    map (jira_issue self) (search_issues self (''project='' @ argv ! 3) 0 1000) @
    map (jira_issue self) (search_issues self ''project=TFAPD'' 0 1000)"
  have q: "component_query (argv ! 3) (Some quoted) = query"
    by (simp add: component_query_Some quoted_def query_def)
  have m: "main connect getpass issue_eq argv w = run self issue_eq (argv ! 3) (Some quoted) w"
    using assms by (simp add: main_def self_def quoted_def)
  have f: "relevant issue (Some quoted) = relevant issue None"
    if "\<forall>c \<in> set (components issue). dquote \<notin> set c" for issue
    unfolding quoted_def using that by (rule relevant_quoted)
  have r: "\<exists>w'. main connect getpass issue_eq argv w =
        Some (case get_blocked issue_eq issues_to_check all_issues (Some quoted) of
                Inl e \<Rightarrow> (Raised e, w')
              | Inr blocked \<Rightarrow> (Returned, output_digraph blocked w')) \<and>
      requests w' = requests w @
        [(''project='' @ argv ! 3, 0, 1000), (''project=TFAPD'', 0, 1000), (query, 0, 1000)]"
    using run_with_get_blocked [of self issue_eq "argv ! 3" "Some quoted" w]
    unfolding m q issues_to_check_def all_issues_def .
  have o: "\<forall>ko \<in> set (blocks info).
      \<exists>t. get_issue ko all_issues = Inr t \<and> relevant t (Some quoted)"
    if "get_blocked issue_eq issues_to_check all_issues (Some quoted) = Inr blocked"
      and "map_of blocked k = Some info" for blocked k info
    using that by (rule get_blocked_outward_relevant)
  have n: "get_blocked issue_eq issues_to_check all_issues (Some quoted) =
      get_blocked issue_eq issues_to_check all_issues None"
    if "\<forall>t \<in> set all_issues. \<forall>c \<in> set (components t). dquote \<notin> set c"
  proof (rule get_blocked_relevant_cong)
    from that f show "\<forall>t \<in> set all_issues. relevant t (Some quoted) = relevant t None"
      by blast
  qed
  from m q f r o n have
    "main connect getpass issue_eq argv w = run self issue_eq (argv ! 3) (Some quoted) w \<and>
     component_query (argv ! 3) (Some quoted) = query \<and>
     (\<forall>issue.
        (\<forall>c \<in> set (components issue). dquote \<notin> set c) \<longrightarrow>
        relevant issue (Some quoted) = relevant issue None) \<and>
     (\<exists>w'. main connect getpass issue_eq argv w =
          Some (case get_blocked issue_eq issues_to_check all_issues (Some quoted) of
                  Inl e \<Rightarrow> (Raised e, w')
                | Inr blocked \<Rightarrow> (Returned, output_digraph blocked w')) \<and>
        requests w' = requests w @
          [(''project='' @ argv ! 3, 0, 1000), (''project=TFAPD'', 0, 1000),
           (query, 0, 1000)]) \<and>
     (\<forall>blocked k info.
        get_blocked issue_eq issues_to_check all_issues (Some quoted) = Inr blocked \<and>
        map_of blocked k = Some info \<longrightarrow>
        (\<forall>ko \<in> set (blocks info).
           \<exists>t. get_issue ko all_issues = Inr t \<and> relevant t (Some quoted))) \<and>
     ((\<forall>t \<in> set all_issues. \<forall>c \<in> set (components t). dquote \<notin> set c) \<longrightarrow>
      get_blocked issue_eq issues_to_check all_issues (Some quoted) =
      get_blocked issue_eq issues_to_check all_issues None)"
    by blast
  then show ?thesis
    unfolding Let_def self_def quoted_def query_def issues_to_check_def all_issues_def .
qed

lemma sample_chunk_quoted:
  "map (jira_issue (sample_jira sample_results))
     (search_issues (sample_jira sample_results)
        (''project=P AND component='' @ [dquote] @ ''X'' @ [dquote]) 0 1000) = [issue_A]"
  by (simp add: sample_jira_def sample_results_def)

lemma sample_relevant_quoted:
  "relevant issue_B (Some ([dquote] @ ''X'' @ [dquote]))"
  "relevant issue_D (Some ([dquote] @ ''X'' @ [dquote]))"
  by (simp_all add: relevant_def resolved_def components_def issue_B_def issue_D_def
      sample_issue_def)

lemma sample_links_loop_quoted:
  "links_loop (=) [issue_A] [issue_A, issue_B, issue_C, issue_D]
     (Some ([dquote] @ ''X'' @ [dquote])) ([], []) (issuelinks issue_A) =
     Inr ([''B-2'', ''D-4''], [''C-3''])"
proof -
  let ?body = "link_body (=) [issue_A] [issue_A, issue_B, issue_C, issue_D]
      (Some ([dquote] @ ''X'' @ [dquote]))"
  have l: "issuelinks issue_A =
      [blocks_link (Some ''B-2'') None, blocks_link (Some ''D-4'') None,
       blocks_link None (Some ''C-3'')]"
    by (simp add: issue_A_def sample_issue_def)
  have k: "key issue_D = ''D-4''"
    by (simp add: issue_D_def sample_issue_def)
  have b1: "?body ([], []) (blocks_link (Some ''B-2'') None) = Inr ([''B-2''], [])"
    using sample_relevant_quoted(1)
    by (simp add: link_body_def inward_branch_def blocks_link_def sample_lookup
        sample_distinct sample_keys)
  have b2: "?body ([''B-2''], []) (blocks_link (Some ''D-4'') None) =
      Inr ([''B-2'', ''D-4''], [])"
    using sample_relevant_quoted(2)
    by (simp add: link_body_def inward_branch_def blocks_link_def sample_lookup
        sample_distinct k)
  have b3: "?body ([''B-2'', ''D-4''], []) (blocks_link None (Some ''C-3'')) =
      Inr ([''B-2'', ''D-4''], [''C-3''])"
    by (simp add: link_body_def inward_branch_def blocks_link_def sample_lookup
        sample_relevant sample_keys)
  show ?thesis by (simp only: l links_loop.simps b1 b2 b3 sum.case)
qed

lemma sample_get_blocked_quoted:
  "get_blocked (=) [issue_A] [issue_A, issue_B, issue_C, issue_D]
     (Some ([dquote] @ ''X'' @ [dquote])) =
     Inr [(''A-1'', \<lparr>blocks = [''B-2'', ''D-4''], is_blocked_by = [''C-3'']\<rparr>)]"
proof -
  have "\<not> resolved issue_A"
    by (simp add: issue_A_def sample_issue_def resolved_def)
  then show ?thesis
    by (simp add: get_blocked_def sample_links_loop_quoted sample_keys del: append.simps)
qed

theorem main_component_quoted_witness:
  "length [''jirablockers.py'', ''user'', ''server'', ''P'', ''X''] = 5 \<and>
   main (\<lambda>user password server. sample_jira sample_results) ''secret'' (=)
       [''jirablockers.py'', ''user'', ''server'', ''P'', ''X''] empty_world =
     run (sample_jira sample_results) (=) ''P'' (Some ([dquote] @ ''X'' @ [dquote]))
       empty_world \<and>
   ''X'' \<in> set (components issue_D) \<and>
   \<not> relevant issue_D (Some ''X'') \<and>
   relevant issue_D (Some ([dquote] @ ''X'' @ [dquote])) \<and>
   (\<exists>w'. main (\<lambda>user password server. sample_jira sample_results) ''secret'' (=)
         [''jirablockers.py'', ''user'', ''server'', ''P'', ''X''] empty_world =
       Some (Returned,
         output_digraph
           [(''A-1'', \<lparr>blocks = [''B-2'', ''D-4''], is_blocked_by = [''C-3'']\<rparr>)] w') \<and>
       requests w' =
         [(''project=P'', 0, 1000), (''project=TFAPD'', 0, 1000),
          (''project=P AND component='' @ [dquote] @ ''X'' @ [dquote], 0, 1000)]) \<and>
   get_blocked (=) [issue_A] [issue_A, issue_B, issue_C, issue_D]
       (Some ([dquote] @ ''X'' @ [dquote])) =
     get_blocked (=) [issue_A] [issue_A, issue_B, issue_C, issue_D] None"
proof -
  let ?argv = "[''jirablockers.py'', ''user'', ''server'', ''P'', ''X'']"
  have len: "length ?argv = 5" by simp
  note th = main_component_quoted [OF len,
      of "\<lambda>user password server. sample_jira sample_results" "''secret''" "(=)" empty_world,
      unfolded Let_def]
  note th1 = th [THEN conjunct1]
  note th3 = th [THEN conjunct2, THEN conjunct2, THEN conjunct1]
  note th4 = th [THEN conjunct2, THEN conjunct2, THEN conjunct2, THEN conjunct1]
  note th6 = th [THEN conjunct2, THEN conjunct2, THEN conjunct2, THEN conjunct2, THEN conjunct2]
  have unquoted: "\<forall>t \<in> set [issue_A, issue_B, issue_C, issue_D].
      \<forall>c \<in> set (components t). dquote \<notin> set c"
    by (simp add: components_def issue_A_def issue_B_def issue_C_def issue_D_def
        sample_issue_def)
  have member: "''X'' \<in> set (components issue_D)"
    by (simp add: components_def issue_D_def sample_issue_def)
  have none: "relevant issue_D None"
    by (simp add: relevant_def resolved_def components_def issue_D_def sample_issue_def)
  from th1 have call:
    "main (\<lambda>user password server. sample_jira sample_results) ''secret'' (=)
       ?argv empty_world =
     run (sample_jira sample_results) (=) ''P'' (Some ([dquote] @ ''X'' @ [dquote]))
       empty_world"
    by simp
  from th3 unquoted have "relevant issue_D (Some ([dquote] @ ?argv ! 4 @ [dquote])) =
      relevant issue_D None"
    by simp
  with none have quoted: "relevant issue_D (Some ([dquote] @ ''X'' @ [dquote]))"
    by simp
  from th4 have outcome:
    "\<exists>w'. main (\<lambda>user password server. sample_jira sample_results) ''secret'' (=)
         ?argv empty_world =
       Some (Returned,
         output_digraph
           [(''A-1'', \<lparr>blocks = [''B-2'', ''D-4''], is_blocked_by = [''C-3'']\<rparr>)] w') \<and>
       requests w' =
         [(''project=P'', 0, 1000), (''project=TFAPD'', 0, 1000),
          (''project=P AND component='' @ [dquote] @ ''X'' @ [dquote], 0, 1000)]"
    using sample_chunks sample_chunk_quoted sample_get_blocked_quoted
    by (simp add: empty_world_def)
  from th6 unquoted have same:
    "get_blocked (=) [issue_A] [issue_A, issue_B, issue_C, issue_D]
       (Some ([dquote] @ ''X'' @ [dquote])) =
     get_blocked (=) [issue_A] [issue_A, issue_B, issue_C, issue_D] None"
    using sample_chunks sample_chunk_quoted
    by simp
  from len call member sample_relevant(2) quoted outcome same show ?thesis
    by (intro conjI)
qed

end
